theory Spec2Isabelle
  imports Complex_Main "HOL-Library.Word"
begin

section \<open>The audio analyzer of UMP.py\<close>

text \<open>
  The development embeds the class \<open>AudioAnalyzer\<close> of \<open>src/UMP.py\<close> (lines 48-105).
  NumPy arrays of floats are lists of reals: arithmetic is exact, rounding is not
  modelled. A sample decoded from a signed 16-bit integer and divided by 32768 is a
  dyadic rational that both float32 and float64 hold exactly, so the buffer operations,
  which only copy samples, lose nothing by this reading.
\<close>

subsection \<open>Values, errors and the object state\<close>

datatype py_error = ValueError | IndexError | ZeroDivisionError

text \<open>What a Python call hands back to its caller, as far as this class is concerned.\<close>

datatype pyval = PyNone | PyBool bool

record analyzer =
  sample_rate :: nat
  fft_size :: nat
  history_size :: nat
  freq_history :: "real list list"
  spec_history :: "real list list"
  current_pos :: nat
  audio_buffer :: "real list"
  buffer_pos :: nat
  window :: "real list"
  running :: bool

text \<open>\<open>np.hanning(M)\<close>: empty below one point, \<open>[1.]\<close> for one point, the symmetric
  raised cosine otherwise.\<close>

definition hanning :: "nat \<Rightarrow> real list" where
  "hanning M =
     (if M < 1 then []
      else if M = 1 then [1]
      else map (\<lambda>n. 0.5 - 0.5 * cos (2 * pi * real n / real (M - 1))) [0..<M])"

text \<open>\<open>AudioAnalyzer.__init__\<close>, lines 51-63.\<close>

definition init :: analyzer where
  "init =
     (let F = 2048; H = 20 in
      \<lparr> sample_rate = 44100,
        fft_size = F,
        history_size = H,
        freq_history = replicate H (replicate (F div 2) 0),
        spec_history = replicate H (replicate (F div 2) 0),
        current_pos = 0,
        audio_buffer = replicate (F * 2) 0,
        buffer_pos = 0,
        window = hanning F,
        running = True \<rparr>)"

subsection \<open>The producer side: \<open>process_audio\<close>\<close>

text \<open>Line 94: \<open>audio_data.astype(np.float32) / 32768.0\<close> on one int16 sample.\<close>

definition int16_to_float :: "16 word \<Rightarrow> real" where
  "int16_to_float w = real_of_int (sint w) / 32768"

text \<open>
  \<open>process_audio\<close>, lines 92-101, on the int16 samples that \<open>np.frombuffer\<close> decoded.
  The slice assignment of line 99 is only reached when the chunk fits, so it replaces
  exactly \<open>len(audio_data)\<close> cells. The function has no \<open>return\<close> statement: both
  branches hand \<open>None\<close> to the caller.
\<close>

definition process_audio :: "analyzer \<Rightarrow> 16 word list \<Rightarrow> pyval \<times> analyzer" where
  "process_audio s buffer =
     (let audio_data = map int16_to_float buffer;
          available_space = int (length (audio_buffer s)) - int (buffer_pos s)
      in if int (length audio_data) \<le> available_space
         then (PyNone,
               s\<lparr> audio_buffer :=
                    take (buffer_pos s) (audio_buffer s) @ audio_data
                      @ drop (buffer_pos s + length audio_data) (audio_buffer s),
                  buffer_pos := buffer_pos s + length audio_data \<rparr>)
         else (PyNone, s))"

subsection \<open>The consumer side: taking one frame out (\<open>run\<close>, lines 68-71)\<close>

text \<open>
  \<open>chunk = self.audio_buffer[:self.fft_size]\<close> is a prefix; \<open>np.roll(a, -k)\<close> moves
  every cell \<open>k\<close> places to the left and wraps, which is \<^const>\<open>rotate\<close>.
  \<open>np.roll\<close> returns a new array, so the slice taken before it keeps the frame: the
  frame is a value here. The cells above the cursor keep old samples, which no
  operation reads before they are overwritten.
\<close>

definition run_pop_frame :: "analyzer \<Rightarrow> real list option \<times> analyzer" where
  "run_pop_frame s =
     (if buffer_pos s \<ge> fft_size s
      then (Some (take (fft_size s) (audio_buffer s)),
            s\<lparr> audio_buffer := rotate (fft_size s) (audio_buffer s),
               buffer_pos := buffer_pos s - fft_size s \<rparr>)
      else (None, s))"

subsection \<open>What an observer of the buffer sees\<close>

definition capacity :: "analyzer \<Rightarrow> nat" where
  "capacity s = length (audio_buffer s)"

definition occupancy :: "analyzer \<Rightarrow> nat" where
  "occupancy s = buffer_pos s"

text \<open>The buffered samples, oldest first: the cells below the write cursor.\<close>

definition contents :: "analyzer \<Rightarrow> real list" where
  "contents s = take (buffer_pos s) (audio_buffer s)"

definition buffer_ok :: "analyzer \<Rightarrow> bool" where
  "buffer_ok s = (buffer_pos s \<le> length (audio_buffer s))"

subsection \<open>NumPy primitives of the analysis\<close>

text \<open>
  The elementwise product of two one-dimensional arrays under NumPy's broadcasting:
  equal lengths, or one operand of length one; any other pair of shapes raises
  \<open>ValueError\<close>.
\<close>

definition np_multiply :: "real list \<Rightarrow> real list \<Rightarrow> py_error + real list" where
  "np_multiply xs ys =
     (if length xs = length ys then Inr (map2 (*) xs ys)
      else if length xs = 1 then Inr (map (\<lambda>y. hd xs * y) ys)
      else if length ys = 1 then Inr (map (\<lambda>x. x * hd ys) xs)
      else Inl ValueError)"

text \<open>
  \<open>np.fft.rfft\<close>: bin \<open>k\<close> of the discrete Fourier transform of a real input of
  \<open>N\<close> points, for \<open>k = 0, ..., N div 2\<close>; an empty input raises \<open>ValueError\<close>.
\<close>

definition rfft_bin :: "real list \<Rightarrow> nat \<Rightarrow> complex" where
  "rfft_bin xs k =
     (\<Sum>n<length xs. of_real (xs ! n) * cis (- (2 * pi * real k * real n / real (length xs))))"

definition rfft :: "real list \<Rightarrow> py_error + complex list" where
  "rfft xs =
     (if length xs = 0 then Inl ValueError
      else Inr (map (rfft_bin xs) [0..<length xs div 2 + 1]))"

definition np_mean :: "real list \<Rightarrow> real" where
  "np_mean xs = sum_list xs / real (length xs)"

text \<open>\<open>np.max\<close> raises \<open>ValueError\<close> on an empty array.\<close>

definition np_max :: "real list \<Rightarrow> py_error + real" where
  "np_max xs = (if xs = [] then Inl ValueError else Inr (Max (set xs)))"

text \<open>
  \<open>np.mean(h, axis=0)\<close> of a two-dimensional array kept as the list of its rows, all of
  one length: entry \<open>j\<close> is the mean of column \<open>j\<close> over every row.
\<close>

definition mean_axis0 :: "real list list \<Rightarrow> real list" where
  "mean_axis0 h =
     (case h of
        [] \<Rightarrow> []
      | r # _ \<Rightarrow> map (\<lambda>j. sum_list (map (\<lambda>row. row ! j) h) / real (length h)) [0..<length r])"

text \<open>
  \<open>h[i] = v\<close> on a two-dimensional array: \<open>IndexError\<close> when there is no row \<open>i\<close>;
  \<open>v\<close> must have the row's length, or length one (then it fills the row), else
  \<open>ValueError\<close>.
\<close>

definition set_row :: "real list list \<Rightarrow> nat \<Rightarrow> real list \<Rightarrow> py_error + real list list" where
  "set_row h i v =
     (if i \<ge> length h then Inl IndexError
      else if length v = length (h ! i) then Inr (h[i := v])
      else if length v = 1 then Inr (h[i := replicate (length (h ! i)) (hd v)])
      else Inl ValueError)"

definition py_mod :: "nat \<Rightarrow> nat \<Rightarrow> py_error + nat" where
  "py_mod a b = (if b = 0 then Inl ZeroDivisionError else Inr (a mod b))"

subsection \<open>The analysis of one frame (\<open>run\<close>, lines 73-88)\<close>

text \<open>Lines 73-76: window, transform, magnitude and power of every bin.\<close>

definition run_transform :: "analyzer \<Rightarrow> real list \<Rightarrow> py_error + (real list \<times> real list)" where
  "run_transform s chunk =
     (case np_multiply chunk (window s) of
        Inl e \<Rightarrow> Inl e
      | Inr windowed \<Rightarrow>
          (case rfft windowed of
             Inl e \<Rightarrow> Inl e
           | Inr fft \<Rightarrow>
               (let magnitude = map (\<lambda>z. cmod z / real (fft_size s)) fft;
                    power_db = map (\<lambda>m. 20 * log 10 (m + 1 / 10 ^ 12)) magnitude
                in Inr (magnitude, power_db))))"

text \<open>Lines 78-80: both histories take the first \<open>fft_size // 2\<close> bins at the rotating
  index, which then advances.\<close>

definition run_record :: "analyzer \<Rightarrow> real list \<Rightarrow> real list \<Rightarrow> py_error + analyzer" where
  "run_record s magnitude power_db =
     (case set_row (freq_history s) (current_pos s) (take (fft_size s div 2) magnitude) of
        Inl e \<Rightarrow> Inl e
      | Inr fh \<Rightarrow>
          (case set_row (spec_history s) (current_pos s) (take (fft_size s div 2) power_db) of
             Inl e \<Rightarrow> Inl e
           | Inr sh \<Rightarrow>
               (case py_mod (current_pos s + 1) (history_size s) of
                  Inl e \<Rightarrow> Inl e
                | Inr p \<Rightarrow> Inr (s\<lparr> freq_history := fh, spec_history := sh, current_pos := p \<rparr>))))"

text \<open>Lines 82-87: the dictionary handed to \<open>analysis_updated.emit\<close>.\<close>

record analysis_result =
  spectrum :: "real list"
  spectrogram :: "real list"
  rms :: real
  peak :: real

definition run_result :: "analyzer \<Rightarrow> real list \<Rightarrow> py_error + analysis_result" where
  "run_result s magnitude =
     (case np_max magnitude of
        Inl e \<Rightarrow> Inl e
      | Inr pk \<Rightarrow>
          Inr \<lparr> spectrum = mean_axis0 (freq_history s),
                spectrogram = mean_axis0 (spec_history s),
                rms = sqrt (np_mean (map (\<lambda>m. m ^ 2) magnitude)),
                peak = pk \<rparr>)"

text \<open>
  One iteration of the \<open>while self.running\<close> loop, lines 66-90. \<open>run\<close> has no
  \<open>try\<close>: an exception raised inside the body leaves \<open>run\<close>, which is the value
  \<open>Inl\<close> here. \<open>Inr (Some r, s')\<close> is an iteration that emitted \<open>r\<close>.
\<close>

definition run_cycle :: "analyzer \<Rightarrow> py_error + (analysis_result option \<times> analyzer)" where
  "run_cycle s =
     (case run_pop_frame s of
        (None, s1) \<Rightarrow> Inr (None, s1)
      | (Some chunk, s1) \<Rightarrow>
          (case run_transform s1 chunk of
             Inl e \<Rightarrow> Inl e
           | Inr (magnitude, power_db) \<Rightarrow>
               (case run_record s1 magnitude power_db of
                  Inl e \<Rightarrow> Inl e
                | Inr s2 \<Rightarrow>
                    (case run_result s2 magnitude of
                       Inl e \<Rightarrow> Inl e
                     | Inr r \<Rightarrow> Inr (Some r, s2)))))"

subsection \<open>Producer and consumer interleaved\<close>

text \<open>
  The mutex makes each call of \<open>process_audio\<close> and each loop iteration atomic with
  respect to the other, so a run of the two threads is a sequence of these steps.
  \<open>Stop\<close> is the assignment of \<open>stop_analysis\<close> (line 104). A raised exception ends
  the worker: the rest of the schedule is not executed and the run is \<open>Inl\<close>.
\<close>

datatype op = Push "16 word list" | Cycle | Stop

fun exec :: "op list \<Rightarrow> analyzer \<Rightarrow> py_error + (analysis_result list \<times> analyzer)" where
  "exec [] s = Inr ([], s)"
| "exec (Push c # ops) s = exec ops (snd (process_audio s c))"
| "exec (Stop # ops) s = exec ops (s\<lparr> running := False \<rparr>)"
| "exec (Cycle # ops) s =
     (if \<not> running s then exec ops s
      else (case run_cycle s of
              Inl e \<Rightarrow> Inl e
            | Inr (r, s') \<Rightarrow>
                (case exec ops s' of
                   Inl e \<Rightarrow> Inl e
                 | Inr (rs, t) \<Rightarrow> Inr ((case r of None \<Rightarrow> rs | Some x \<Rightarrow> x # rs), t))))"

text \<open>The buffer alone under pushes and frame removals: the frames taken out, in order,
  and the final state.\<close>

datatype buf_op = BPush "16 word list" | BPop

fun buf_exec :: "buf_op list \<Rightarrow> analyzer \<Rightarrow> real list list \<times> analyzer" where
  "buf_exec [] s = ([], s)"
| "buf_exec (BPush c # ops) s = buf_exec ops (snd (process_audio s c))"
| "buf_exec (BPop # ops) s =
     (case run_pop_frame s of
        (None, s') \<Rightarrow> buf_exec ops s'
      | (Some f, s') \<Rightarrow> (f # fst (buf_exec ops s'), snd (buf_exec ops s')))"

text \<open>The samples of the pushes that were taken in, in the order of the calls.\<close>

fun accepted :: "buf_op list \<Rightarrow> analyzer \<Rightarrow> real list" where
  "accepted [] s = []"
| "accepted (BPush c # ops) s =
     (if int (length c) \<le> int (length (audio_buffer s)) - int (buffer_pos s)
      then map int16_to_float c else [])
     @ accepted ops (snd (process_audio s c))"
| "accepted (BPop # ops) s = accepted ops (snd (run_pop_frame s))"

text \<open>Recording a sequence of transform outputs, one \<open>run_record\<close> each.\<close>

fun record_all :: "analyzer \<Rightarrow> (real list \<times> real list) list \<Rightarrow> py_error + analyzer" where
  "record_all s [] = Inr s"
| "record_all s (mp # rest) =
     (case run_record s (fst mp) (snd mp) of
        Inl e \<Rightarrow> Inl e
      | Inr s' \<Rightarrow> record_all s' rest)"

subsection \<open>Well-formed states\<close>

definition history_ok :: "analyzer \<Rightarrow> bool" where
  "history_ok s =
     (0 < history_size s \<and> current_pos s < history_size s
      \<and> length (freq_history s) = history_size s
      \<and> length (spec_history s) = history_size s
      \<and> list_all (\<lambda>r. length r = fft_size s div 2) (freq_history s)
      \<and> list_all (\<lambda>r. length r = fft_size s div 2) (spec_history s))"

definition wf :: "analyzer \<Rightarrow> bool" where
  "wf s =
     (0 < fft_size s \<and> length (window s) = fft_size s
      \<and> length (audio_buffer s) = fft_size s * 2
      \<and> buffer_ok s \<and> history_ok s)"

subsection \<open>The order of locking and work\<close>

datatype event =
  MutexLock | MutexUnlock | CopyIn | CopyOut | Transform | Record | Emit
  | Raise py_error | Msleep nat

text \<open>
  The statements of \<open>process_audio\<close> from line 96 on, and of one loop iteration of
  \<open>run\<close> (lines 67-90), in the order they execute. An exception stops the sequence
  where it is raised.
\<close>

definition process_audio_events :: "analyzer \<Rightarrow> 16 word list \<Rightarrow> event list" where
  "process_audio_events s buffer =
     [MutexLock]
     @ (if int (length buffer) \<le> int (length (audio_buffer s)) - int (buffer_pos s)
        then [CopyIn] else [])
     @ [MutexUnlock]"

definition run_cycle_events :: "analyzer \<Rightarrow> event list" where
  "run_cycle_events s =
     (case run_pop_frame s of
        (None, s1) \<Rightarrow> [MutexLock, MutexUnlock, Msleep 20]
      | (Some chunk, s1) \<Rightarrow>
          (case run_transform s1 chunk of
             Inl e \<Rightarrow> [MutexLock, CopyOut, Raise e]
           | Inr (magnitude, power_db) \<Rightarrow>
               (case run_record s1 magnitude power_db of
                  Inl e \<Rightarrow> [MutexLock, CopyOut, Transform, Raise e]
                | Inr s2 \<Rightarrow>
                    (case run_result s2 magnitude of
                       Inl e \<Rightarrow> [MutexLock, CopyOut, Transform, Record, Raise e]
                     | Inr r \<Rightarrow>
                         [MutexLock, CopyOut, Transform, Record, Emit,
                          MutexUnlock, Msleep 20]))))"

text \<open>The events of a sequence that execute while the mutex is held; the first argument
  says whether it is held at the start.\<close>

fun under_lock :: "bool \<Rightarrow> event list \<Rightarrow> event list" where
  "under_lock h [] = []"
| "under_lock h (MutexLock # es) = under_lock True es"
| "under_lock h (MutexUnlock # es) = under_lock False es"
| "under_lock h (e # es) = (if h then e # under_lock h es else under_lock h es)"

subsection \<open>Inputs of the history and of the transform\<close>

text \<open>A transform output whose two arrays have at least \<open>fft_size // 2\<close> bins, as
  every output of \<open>np.fft.rfft\<close> on \<open>fft_size\<close> points has.\<close>

definition snap_ok :: "analyzer \<Rightarrow> (real list \<times> real list) \<Rightarrow> bool" where
  "snap_ok s mp = (fft_size s div 2 \<le> length (fst mp) \<and> fft_size s div 2 \<le> length (snd mp))"




section \<open>Helper lemmas on the buffer\<close>

lemma buffer_ok_init: "buffer_ok init"
  by (simp add: buffer_ok_def init_def Let_def)

lemma take_rotate_prefix:
  assumes "k \<le> p" and "p \<le> length xs"
  shows "take (p - k) (rotate k xs) = drop k (take p xs)"
proof (cases "k < length xs")
  case True
  then have "rotate k xs = drop k xs @ take k xs"
    by (simp add: rotate_drop_take)
  moreover have "p - k \<le> length (drop k xs)"
    using assms by simp
  ultimately show ?thesis
    by (simp add: drop_take)
next
  case False
  with assms have "p = length xs" and "k = length xs" by simp_all
  then show ?thesis by simp
qed

lemma process_audio_accept:
  assumes "buffer_ok s" and "length chunk + buffer_pos s \<le> length (audio_buffer s)"
  shows "contents (snd (process_audio s chunk)) = contents s @ map int16_to_float chunk"
    and "buffer_pos (snd (process_audio s chunk)) = buffer_pos s + length chunk"
    and "length (audio_buffer (snd (process_audio s chunk))) = length (audio_buffer s)"
  using assms by (auto simp: process_audio_def contents_def buffer_ok_def Let_def)

lemma process_audio_reject:
  assumes "length (audio_buffer s) < length chunk + buffer_pos s"
  shows "snd (process_audio s chunk) = s"
  using assms by (auto simp: process_audio_def Let_def)

lemma process_audio_returns_None: "fst (process_audio s chunk) = PyNone"
  by (simp add: process_audio_def Let_def)

lemma run_pop_frame_some:
  assumes "buffer_ok s" and "fft_size s \<le> buffer_pos s"
  shows "fst (run_pop_frame s) = Some (take (fft_size s) (contents s))"
    and "length (take (fft_size s) (contents s)) = fft_size s"
    and "contents (snd (run_pop_frame s)) = drop (fft_size s) (contents s)"
    and "buffer_pos (snd (run_pop_frame s)) = buffer_pos s - fft_size s"
    and "length (audio_buffer (snd (run_pop_frame s))) = length (audio_buffer s)"
  using assms
  by (auto simp: run_pop_frame_def contents_def buffer_ok_def take_rotate_prefix min_def)

lemma run_pop_frame_none:
  assumes "buffer_pos s < fft_size s"
  shows "run_pop_frame s = (None, s)"
  using assms by (simp add: run_pop_frame_def)

section \<open>The sample buffer\<close>

text \<open>
  Claim C1, as the code has it. When the remaining capacity is at least the chunk's
  length, \<open>process_audio\<close> appends the converted samples behind the buffered ones and
  raises the occupancy by the chunk's length; otherwise the whole state is unchanged
  (no partial write), also for a chunk longer than the whole buffer. The function is
  total on decoded samples. In both cases the caller receives \<open>None\<close>: a drop is not
  reported.
\<close>

theorem push_all_or_nothing:
  assumes "buffer_ok s"
  shows "(length chunk \<le> capacity s - occupancy s \<longrightarrow>
            contents (snd (process_audio s chunk)) = contents s @ map int16_to_float chunk
          \<and> occupancy (snd (process_audio s chunk)) = occupancy s + length chunk
          \<and> capacity (snd (process_audio s chunk)) = capacity s)
       \<and> (\<not> length chunk \<le> capacity s - occupancy s \<longrightarrow> snd (process_audio s chunk) = s)
       \<and> fst (process_audio s chunk) = PyNone"
proof -
  have le: "buffer_pos s \<le> length (audio_buffer s)"
    using assms by (simp add: buffer_ok_def)
  show ?thesis
  proof (cases "length chunk \<le> capacity s - occupancy s")
    case True
    with le have "length chunk + buffer_pos s \<le> length (audio_buffer s)"
      by (simp add: capacity_def occupancy_def)
    from process_audio_accept[OF assms this] True show ?thesis
      by (simp add: capacity_def occupancy_def process_audio_returns_None)
  next
    case False
    with le have "length (audio_buffer s) < length chunk + buffer_pos s"
      by (simp add: capacity_def occupancy_def)
    from process_audio_reject[OF this] False show ?thesis
      by (simp add: process_audio_returns_None)
  qed
qed

text \<open>A chunk of three samples is taken in by the fresh analyzer; one of 4097 samples is
  dropped whole.\<close>

theorem push_all_or_nothing_witness:
  "buffer_ok init
   \<and> length [1, 2, 3 :: 16 word] \<le> capacity init - occupancy init
   \<and> contents (snd (process_audio init [1, 2, 3])) = map int16_to_float [1, 2, 3]
   \<and> occupancy (snd (process_audio init [1, 2, 3])) = 3
   \<and> \<not> length (replicate 4097 (0 :: 16 word)) \<le> capacity init - occupancy init
   \<and> snd (process_audio init (replicate 4097 0)) = init
   \<and> fst (process_audio init (replicate 4097 0)) = PyNone"
proof -
  have e: "capacity init = 4096" "occupancy init = 0" "contents init = []"
    by (simp_all add: capacity_def occupancy_def contents_def init_def Let_def)
  show ?thesis
    using push_all_or_nothing[OF buffer_ok_init, of "[1, 2, 3]"]
          push_all_or_nothing[OF buffer_ok_init, of "replicate 4097 0"]
          buffer_ok_init
    by (simp add: e)
qed

text \<open>
  Claim C1 as stated asks for a boolean failure report. A chunk of 4097 samples does not
  fit the fresh buffer of 4096 cells, and the call returns \<open>None\<close>, the same value an
  accepted (empty) chunk returns, not \<open>False\<close>.
\<close>

theorem push_reports_nothing_counterexample:
  "\<not> length (replicate 4097 (0 :: 16 word)) \<le> capacity init - occupancy init
   \<and> fst (process_audio init (replicate 4097 0)) \<noteq> PyBool False
   \<and> fst (process_audio init (replicate 4097 0)) = fst (process_audio init [])"
  by (simp add: process_audio_def capacity_def occupancy_def init_def Let_def)

text \<open>
  Claim C2. Taking a frame out succeeds exactly when the occupancy is at least
  \<open>fft_size\<close>. On success the frame is the oldest \<open>fft_size\<close> buffered samples, the
  samples left are the rest in their order, the occupancy drops by exactly \<open>fft_size\<close>
  and the capacity stays; otherwise nothing is returned and the state is unchanged.
\<close>

theorem pop_frame_exact:
  assumes "buffer_ok s"
  shows "(fst (run_pop_frame s) \<noteq> None \<longleftrightarrow> fft_size s \<le> occupancy s)
       \<and> (fft_size s \<le> occupancy s \<longrightarrow>
            fst (run_pop_frame s) = Some (take (fft_size s) (contents s))
          \<and> length (take (fft_size s) (contents s)) = fft_size s
          \<and> contents (snd (run_pop_frame s)) = drop (fft_size s) (contents s)
          \<and> occupancy (snd (run_pop_frame s)) = occupancy s - fft_size s
          \<and> capacity (snd (run_pop_frame s)) = capacity s)
       \<and> (occupancy s < fft_size s \<longrightarrow> run_pop_frame s = (None, s))"
  using run_pop_frame_some[OF assms] run_pop_frame_none[of s]
  by (auto simp: occupancy_def capacity_def run_pop_frame_def)

text \<open>
  Claim C8. Pushing exactly \<open>fft_size\<close> samples into an empty buffer and taking a
  frame out at once returns the pushed samples, each converted to its float.
\<close>

theorem round_trip:
  assumes "buffer_pos s = 0" and "length chunk = fft_size s"
    and "fft_size s \<le> length (audio_buffer s)"
  shows "fst (run_pop_frame (snd (process_audio s chunk))) = Some (map int16_to_float chunk)"
  using assms by (simp add: process_audio_def run_pop_frame_def Let_def)


lemma process_audio_keeps:
  "fft_size (snd (process_audio s c)) = fft_size s"
  "length (audio_buffer (snd (process_audio s c))) = length (audio_buffer s)"
  "buffer_ok s \<Longrightarrow> buffer_ok (snd (process_audio s c))"
  by (auto simp: process_audio_def Let_def buffer_ok_def)

lemma run_pop_frame_keeps:
  "fft_size (snd (run_pop_frame s)) = fft_size s"
  "length (audio_buffer (snd (run_pop_frame s))) = length (audio_buffer s)"
  "buffer_ok s \<Longrightarrow> buffer_ok (snd (run_pop_frame s))"
  by (auto simp: run_pop_frame_def buffer_ok_def)

lemma process_audio_contents:
  assumes "buffer_ok s"
  shows "contents (snd (process_audio s c)) =
           contents s @ (if int (length c) \<le> int (length (audio_buffer s)) - int (buffer_pos s)
                         then map int16_to_float c else [])"
  using assms by (auto simp: process_audio_def Let_def buffer_ok_def contents_def)

lemma buf_exec_fifo:
  assumes "buffer_ok s"
  shows "buffer_ok (snd (buf_exec ops s))
       \<and> length (audio_buffer (snd (buf_exec ops s))) = length (audio_buffer s)
       \<and> fft_size (snd (buf_exec ops s)) = fft_size s
       \<and> list_all (\<lambda>f. length f = fft_size s) (fst (buf_exec ops s))
       \<and> concat (fst (buf_exec ops s)) @ contents (snd (buf_exec ops s))
           = contents s @ accepted ops s"
  using assms
proof (induction ops s rule: buf_exec.induct)
  case (1 s)
  then show ?case by simp
next
  case (2 c ops s)
  from "2.prems" have ok: "buffer_ok (snd (process_audio s c))"
    by (rule process_audio_keeps)
  from "2.IH"[OF ok] process_audio_contents[OF "2.prems", of c] show ?case
    by (simp add: process_audio_keeps)
next
  case (3 ops s)
  show ?case
  proof (cases "fft_size s \<le> buffer_pos s")
    case True
    define s1 where "s1 = snd (run_pop_frame s)"
    have rp: "run_pop_frame s = (Some (take (fft_size s) (contents s)), s1)"
      using run_pop_frame_some(1)[OF "3.prems" True] by (simp add: s1_def prod_eq_iff)
    have ok: "buffer_ok s1"
      unfolding s1_def using "3.prems" by (rule run_pop_frame_keeps)
    have ih: "buffer_ok (snd (buf_exec ops s1))
       \<and> length (audio_buffer (snd (buf_exec ops s1))) = length (audio_buffer s1)
       \<and> fft_size (snd (buf_exec ops s1)) = fft_size s1
       \<and> list_all (\<lambda>f. length f = fft_size s1) (fst (buf_exec ops s1))
       \<and> concat (fst (buf_exec ops s1)) @ contents (snd (buf_exec ops s1))
           = contents s1 @ accepted ops s1"
      using "3.IH"(2)[OF rp[symmetric] refl ok] .
    have c1: "contents s1 = drop (fft_size s) (contents s)"
      unfolding s1_def by (rule run_pop_frame_some(3)[OF "3.prems" True])
    have keep: "fft_size s1 = fft_size s" "length (audio_buffer s1) = length (audio_buffer s)"
      unfolding s1_def by (rule run_pop_frame_keeps)+
    have len: "length (take (fft_size s) (contents s)) = fft_size s"
      by (rule run_pop_frame_some(2)[OF "3.prems" True])
    have acc: "accepted (BPop # ops) s = accepted ops s1"
      by (simp add: s1_def)
    have "take (fft_size s) (contents s) @ concat (fst (buf_exec ops s1)) @ contents (snd (buf_exec ops s1))
          = contents s @ accepted ops s1"
      using ih c1 by (simp del: append_assoc add: append_assoc[symmetric])
    with ih keep len acc rp show ?thesis
      by simp
  next
    case False
    then have rp: "run_pop_frame s = (None, s)"
      by (simp add: run_pop_frame_def)
    from "3.IH"(1)[OF rp[symmetric] refl "3.prems"] rp show ?thesis
      by simp
  qed
qed

text \<open>
  Claim C6. The buffer is built with \<open>2 * fft_size\<close> cells and is empty. After any
  sequence of pushes and frame removals the capacity is the same, the occupancy is at
  most the capacity, every frame taken out has exactly \<open>fft_size\<close> samples, and the
  frames taken out followed by the samples still buffered are the accepted samples in
  the order they were pushed. A push that does not fit leaves the occupancy as it was.
\<close>

theorem buffer_fifo:
  "capacity init = 2 * fft_size init
   \<and> occupancy init = 0
   \<and> capacity (snd (buf_exec ops init)) = capacity init
   \<and> occupancy (snd (buf_exec ops init)) \<le> capacity init
   \<and> list_all (\<lambda>f. length f = fft_size init) (fst (buf_exec ops init))
   \<and> concat (fst (buf_exec ops init)) @ contents (snd (buf_exec ops init)) = accepted ops init
   \<and> (\<not> length c \<le> capacity (snd (buf_exec ops init)) - occupancy (snd (buf_exec ops init)) \<longrightarrow>
        occupancy (snd (process_audio (snd (buf_exec ops init)) c))
          = occupancy (snd (buf_exec ops init)))"
proof -
  have e: "length (audio_buffer init) = 4096" "buffer_pos init = 0" "contents init = []"
    "fft_size init = 2048"
    by (simp_all add: contents_def init_def Let_def)
  note f = buf_exec_fifo[OF buffer_ok_init, of ops]
  have rej: "\<not> length c \<le> capacity (snd (buf_exec ops init)) - occupancy (snd (buf_exec ops init)) \<Longrightarrow>
        snd (process_audio (snd (buf_exec ops init)) c) = snd (buf_exec ops init)"
    using f by (intro process_audio_reject) (simp add: capacity_def occupancy_def buffer_ok_def)
  from f rej show ?thesis
    by (auto simp: e capacity_def occupancy_def buffer_ok_def)
qed


lemma init_fields:
  "fft_size init = 2048" "history_size init = 20" "buffer_pos init = 0" "current_pos init = 0"
  "audio_buffer init = replicate 4096 0" "window init = hanning 2048" "running init"
  "freq_history init = replicate 20 (replicate 1024 0)"
  "spec_history init = replicate 20 (replicate 1024 0)"
  by (simp_all add: init_def Let_def)

text \<open>The fresh analyzer has no frame; after a push of 2048 samples it has one.\<close>

theorem pop_frame_exact_witness:
  "buffer_ok init \<and> occupancy init < fft_size init \<and> run_pop_frame init = (None, init)
   \<and> buffer_ok (snd (process_audio init (replicate 2048 1)))
   \<and> fft_size (snd (process_audio init (replicate 2048 1)))
        \<le> occupancy (snd (process_audio init (replicate 2048 1)))
   \<and> fst (run_pop_frame (snd (process_audio init (replicate 2048 1)))) \<noteq> None
   \<and> occupancy (snd (run_pop_frame (snd (process_audio init (replicate 2048 1))))) = 0"
proof -
  have ok: "buffer_ok (snd (process_audio init (replicate 2048 1)))"
    using buffer_ok_init by (rule process_audio_keeps)
  have occ: "occupancy (snd (process_audio init (replicate 2048 1))) = 2048"
    using process_audio_accept(2)[OF buffer_ok_init, of "replicate 2048 1"]
    by (simp add: occupancy_def init_fields)
  have f: "fft_size (snd (process_audio init (replicate 2048 1))) = 2048"
    by (simp add: process_audio_keeps init_fields)
  show ?thesis
    using pop_frame_exact[OF buffer_ok_init] pop_frame_exact[OF ok] ok occ f buffer_ok_init
    by (simp add: occupancy_def init_fields)
qed

text \<open>The round trip of the samples 0, 1, ..., 2047 through the fresh analyzer.\<close>

theorem round_trip_witness:
  "buffer_pos init = 0 \<and> length (map of_nat [0..<2048] :: 16 word list) = fft_size init
   \<and> fft_size init \<le> length (audio_buffer init)
   \<and> fst (run_pop_frame (snd (process_audio init (map of_nat [0..<2048]))))
       = Some (map int16_to_float (map of_nat [0..<2048]))"
  using round_trip[of init "map of_nat [0..<2048]"]
  by (simp add: init_fields)

text \<open>One push of 2048 samples and one removal from the fresh analyzer, then a push of
  4097 samples that is dropped.\<close>

theorem buffer_fifo_witness:
  "fst (buf_exec [BPush (replicate 2048 1), BPop] init) = [replicate 2048 (int16_to_float 1)]
   \<and> list_all (\<lambda>f. length f = fft_size init) (fst (buf_exec [BPush (replicate 2048 1), BPop] init))
   \<and> \<not> length (replicate 4097 (0 :: 16 word))
          \<le> capacity (snd (buf_exec [BPush (replicate 2048 1), BPop] init))
             - occupancy (snd (buf_exec [BPush (replicate 2048 1), BPop] init))
   \<and> occupancy (snd (process_audio (snd (buf_exec [BPush (replicate 2048 1), BPop] init))
                     (replicate 4097 0)))
       = occupancy (snd (buf_exec [BPush (replicate 2048 1), BPop] init))"
proof -
  have fr: "fst (buf_exec [BPush (replicate 2048 1), BPop] init) = [replicate 2048 (int16_to_float 1)]"
    by (simp add: process_audio_def run_pop_frame_def Let_def init_fields)
  have cap: "capacity init = 4096"
    by (simp add: capacity_def init_fields)
  show ?thesis
    using buffer_fifo[of "[BPush (replicate 2048 1), BPop]" "replicate 4097 0"] fr cap
    by simp
qed

section \<open>The smoothing history\<close>

lemma list_all_update:
  assumes "list_all P xs" and "P v"
  shows "list_all P (xs[i := v])"
  using assms set_update_subset_insert[of xs i v] by (auto simp: list_all_iff)

lemma set_row_ok:
  assumes "i < length h" and "length v = length (h ! i)"
  shows "set_row h i v = Inr (h[i := v])"
  using assms by (simp add: set_row_def)

lemma run_record_ok:
  assumes "history_ok s" and "fft_size s div 2 \<le> length m" and "fft_size s div 2 \<le> length p"
  shows "run_record s m p =
           Inr (s\<lparr> freq_history := (freq_history s)[current_pos s := take (fft_size s div 2) m],
                   spec_history := (spec_history s)[current_pos s := take (fft_size s div 2) p],
                   current_pos := (current_pos s + 1) mod history_size s \<rparr>)"
proof -
  from assms(1) have pos: "current_pos s < length (freq_history s)"
    "current_pos s < length (spec_history s)" and H: "history_size s \<noteq> 0"
    by (simp_all add: history_ok_def)
  from assms(1) pos have rows: "length (freq_history s ! current_pos s) = fft_size s div 2"
    "length (spec_history s ! current_pos s) = fft_size s div 2"
    by (simp_all add: history_ok_def list_all_length)
  have a: "set_row (freq_history s) (current_pos s) (take (fft_size s div 2) m)
             = Inr ((freq_history s)[current_pos s := take (fft_size s div 2) m])"
    using pos(1) rows(1) assms(2) by (intro set_row_ok) simp_all
  have b: "set_row (spec_history s) (current_pos s) (take (fft_size s div 2) p)
             = Inr ((spec_history s)[current_pos s := take (fft_size s div 2) p])"
    using pos(2) rows(2) assms(3) by (intro set_row_ok) simp_all
  show ?thesis
    by (simp add: run_record_def a b py_mod_def H)
qed

lemma run_record_history_ok:
  assumes "history_ok s" and "fft_size s div 2 \<le> length m" and "fft_size s div 2 \<le> length p"
    and "run_record s m p = Inr s'"
  shows "history_ok s'"
  using assms(4) assms(1,2,3) unfolding run_record_ok[OF assms(1,2,3)]
  by (auto simp: history_ok_def intro!: list_all_update)

lemma record_all_append:
  "record_all s (xs @ ys) =
     (case record_all s xs of Inl e \<Rightarrow> Inl e | Inr s' \<Rightarrow> record_all s' ys)"
  by (induction xs arbitrary: s) (auto split: sum.splits)

lemma mod_shift_neq:
  fixes a d H :: nat
  assumes "0 < d" and "d < H"
  shows "(a + d) mod H \<noteq> a mod H"
proof
  assume "(a + d) mod H = a mod H"
  then have "H dvd (a + d) - a"
    by (simp add: mod_eq_dvd_iff_nat)
  then have "H dvd d" by simp
  with assms show False
    by (auto dest: dvd_imp_le)
qed

lemma record_all_state:
  assumes "history_ok s" and "list_all (snap_ok s) snaps"
  shows "\<exists>s'. record_all s snaps = Inr s' \<and> history_ok s'
           \<and> fft_size s' = fft_size s \<and> history_size s' = history_size s
           \<and> current_pos s' = (current_pos s + length snaps) mod history_size s
           \<and> (\<forall>j<length snaps. length snaps \<le> j + history_size s \<longrightarrow>
                 freq_history s' ! ((current_pos s + j) mod history_size s)
                   = take (fft_size s div 2) (fst (snaps ! j))
               \<and> spec_history s' ! ((current_pos s + j) mod history_size s)
                   = take (fft_size s div 2) (snd (snaps ! j)))
           \<and> (\<forall>i<history_size s.
                 (\<forall>j<length snaps. (current_pos s + j) mod history_size s \<noteq> i) \<longrightarrow>
                   freq_history s' ! i = freq_history s ! i
                 \<and> spec_history s' ! i = spec_history s ! i)"
  using assms(2)
proof (induction snaps rule: rev_induct)
  case Nil
  with assms(1) show ?case
    by (simp add: history_ok_def)
next
  case (snoc x xs)
  define H where "H = history_size s"
  define p0 where "p0 = current_pos s"
  define n where "n = length xs"
  define C where "C = fft_size s div 2"
  from snoc.prems have xs_ok: "list_all (snap_ok s) xs" and x_ok: "snap_ok s x"
    by simp_all
  from snoc.IH[OF xs_ok] obtain s1 where
    r1: "record_all s xs = Inr s1" and ok1: "history_ok s1"
    and F1: "fft_size s1 = fft_size s" and H1: "history_size s1 = H"
    and pos1: "current_pos s1 = (p0 + n) mod H"
    and new1: "\<And>j. j < n \<Longrightarrow> n \<le> j + H \<Longrightarrow>
                 freq_history s1 ! ((p0 + j) mod H) = take C (fst (xs ! j))
               \<and> spec_history s1 ! ((p0 + j) mod H) = take C (snd (xs ! j))"
    and old1: "\<And>i. i < H \<Longrightarrow> (\<forall>j<n. (p0 + j) mod H \<noteq> i) \<Longrightarrow>
                 freq_history s1 ! i = freq_history s ! i
               \<and> spec_history s1 ! i = spec_history s ! i"
    unfolding H_def p0_def n_def C_def by blast
  define s2 where "s2 = s1\<lparr> freq_history := (freq_history s1)[current_pos s1 := take C (fst x)],
                   spec_history := (spec_history s1)[current_pos s1 := take C (snd x)],
                   current_pos := (current_pos s1 + 1) mod H \<rparr>"
  from x_ok F1 have lens: "fft_size s1 div 2 \<le> length (fst x)" "fft_size s1 div 2 \<le> length (snd x)"
    by (simp_all add: snap_ok_def)
  have step: "run_record s1 (fst x) (snd x) = Inr s2"
    unfolding s2_def using run_record_ok[OF ok1 lens] by (simp add: F1 H1 C_def)
  have r2: "record_all s (xs @ [x]) = Inr s2"
    by (simp add: record_all_append r1 step)
  have ok2: "history_ok s2"
    using run_record_history_ok[OF ok1 lens step] .
  from ok1 H1 have Hpos: "0 < H" and lenf: "length (freq_history s1) = H"
    and lens1: "length (spec_history s1) = H"
    by (simp_all add: history_ok_def)
  have pin: "current_pos s1 < H"
    using Hpos by (simp add: pos1)
  have pos2: "current_pos s2 = (p0 + length (xs @ [x])) mod H"
    by (simp add: s2_def pos1 n_def mod_Suc_eq)
  have new2: "freq_history s2 ! ((p0 + j) mod H) = take C (fst ((xs @ [x]) ! j))
            \<and> spec_history s2 ! ((p0 + j) mod H) = take C (snd ((xs @ [x]) ! j))"
    if "j < length (xs @ [x])" and "length (xs @ [x]) \<le> j + H" for j
  proof (cases "j = n")
    case True
    then show ?thesis
      using pin lenf lens1 by (simp add: s2_def pos1 n_def)
  next
    case False
    with that have jn: "j < n" and le: "n \<le> j + H" and d: "0 < n - j" "n - j < H"
      by (simp_all add: n_def)
    from mod_shift_neq[OF d, of "p0 + j"] jn
    have ne: "(p0 + j) mod H \<noteq> current_pos s1"
      by (simp add: pos1 algebra_simps)
    from new1[OF jn le] ne jn show ?thesis
      by (simp add: s2_def nth_append n_def)
  qed
  have old2: "freq_history s2 ! i = freq_history s ! i \<and> spec_history s2 ! i = spec_history s ! i"
    if "i < H" and "\<forall>j<length (xs @ [x]). (p0 + j) mod H \<noteq> i" for i
  proof -
    from that(2) have ne: "current_pos s1 \<noteq> i" and rest: "\<forall>j<n. (p0 + j) mod H \<noteq> i"
      by (simp_all add: pos1 n_def)
    from old1[OF that(1) rest] ne show ?thesis
      by (simp add: s2_def)
  qed
  have keep: "fft_size s2 = fft_size s" "history_size s2 = history_size s"
    by (simp_all add: s2_def F1 H1 H_def)
  show ?case
    using r2 ok2 keep pos2 new2 old2
    unfolding H_def p0_def C_def by blast
qed

lemma history_ok_init: "history_ok init"
  by (simp add: history_ok_def init_fields list_all_iff)


text \<open>
  Claim C7. One \<open>run_record\<close> overwrites the slot at the current index in both histories with the first \<open>fft_size // 2\<close> bins and advances the index modulo \<open>history_size\<close>. After any sequence of records both histories still have exactly \<open>history_size\<close> slots and the index is below \<open>history_size\<close>; each of the last \<open>history_size\<close> recorded outputs sits in its own slot; and once at least \<open>history_size\<close> outputs are recorded, the slot at the index, the one the next record overwrites, holds the oldest of them.
\<close>

theorem history_rotation:
  assumes "history_ok s" and "snap_ok s mp" and "list_all (snap_ok s) snaps"
  shows "run_record s (fst mp) (snd mp) =
           Inr (s\<lparr> freq_history := (freq_history s)[current_pos s := take (fft_size s div 2) (fst mp)],
                   spec_history := (spec_history s)[current_pos s := take (fft_size s div 2) (snd mp)],
                   current_pos := (current_pos s + 1) mod history_size s \<rparr>)
       \<and> (\<exists>s'. record_all s snaps = Inr s'
             \<and> length (freq_history s') = history_size s
             \<and> length (spec_history s') = history_size s
             \<and> history_size s' = history_size s
             \<and> current_pos s' = (current_pos s + length snaps) mod history_size s
             \<and> current_pos s' < history_size s
             \<and> (\<forall>j<length snaps. length snaps \<le> j + history_size s \<longrightarrow>
                   freq_history s' ! ((current_pos s + j) mod history_size s)
                     = take (fft_size s div 2) (fst (snaps ! j))
                 \<and> spec_history s' ! ((current_pos s + j) mod history_size s)
                     = take (fft_size s div 2) (snd (snaps ! j)))
             \<and> (history_size s \<le> length snaps \<longrightarrow>
                   freq_history s' ! current_pos s'
                     = take (fft_size s div 2) (fst (snaps ! (length snaps - history_size s)))
                 \<and> spec_history s' ! current_pos s'
                     = take (fft_size s div 2) (snd (snaps ! (length snaps - history_size s)))))"
proof -
  from assms(2) have lens: "fft_size s div 2 \<le> length (fst mp)" "fft_size s div 2 \<le> length (snd mp)"
    by (simp_all add: snap_ok_def)
  note one = run_record_ok[OF assms(1) lens]
  from record_all_state[OF assms(1,3)] obtain s' where
    r: "record_all s snaps = Inr s'" and ok: "history_ok s'"
    and H: "history_size s' = history_size s"
    and pos: "current_pos s' = (current_pos s + length snaps) mod history_size s"
    and new: "\<forall>j<length snaps. length snaps \<le> j + history_size s \<longrightarrow>
                 freq_history s' ! ((current_pos s + j) mod history_size s)
                   = take (fft_size s div 2) (fst (snaps ! j))
               \<and> spec_history s' ! ((current_pos s + j) mod history_size s)
                   = take (fft_size s div 2) (snd (snaps ! j))"
    by blast
  from ok H have len: "length (freq_history s') = history_size s"
    "length (spec_history s') = history_size s" "current_pos s' < history_size s"
    by (simp_all add: history_ok_def)
  have oldest: "freq_history s' ! current_pos s'
                     = take (fft_size s div 2) (fst (snaps ! (length snaps - history_size s)))
                 \<and> spec_history s' ! current_pos s'
                     = take (fft_size s div 2) (snd (snaps ! (length snaps - history_size s)))"
    if full: "history_size s \<le> length snaps"
  proof -
    from assms(1) have Hpos: "0 < history_size s"
      by (simp add: history_ok_def)
    define j where "j = length snaps - history_size s"
    from full Hpos have j: "j < length snaps" "length snaps \<le> j + history_size s"
      by (simp_all add: j_def)
    have "(current_pos s + j) mod history_size s
            = (current_pos s + j + history_size s) mod history_size s"
      by simp
    also have "current_pos s + j + history_size s = current_pos s + length snaps"
      using full by (simp add: j_def)
    finally have "(current_pos s + j) mod history_size s = current_pos s'"
      by (simp add: pos)
    with new j show ?thesis
      unfolding j_def by metis
  qed
  from one r len H pos new oldest show ?thesis
    by blast
qed

text \<open>
  Twenty-one records into the fresh analyzer: the index is 1 and slot 1 holds output number 1, the oldest of the last twenty.
\<close>

theorem history_rotation_witness:
  "history_ok init
   \<and> snap_ok init (replicate 1025 1, replicate 1025 2)
   \<and> list_all (snap_ok init)
        (map (\<lambda>i. (replicate 1025 (real i), replicate 1025 (- real i))) [0..<21])
   \<and> history_size init
        \<le> length (map (\<lambda>i. (replicate 1025 (real i), replicate 1025 (- real i))) [0..<21])
   \<and> (\<exists>s'. record_all init
               (map (\<lambda>i. (replicate 1025 (real i), replicate 1025 (- real i))) [0..<21]) = Inr s'
            \<and> length (freq_history s') = 20 \<and> current_pos s' = 1
            \<and> freq_history s' ! 1 = replicate 1024 1
            \<and> spec_history s' ! 1 = replicate 1024 (- 1))"
proof -
  define snaps where
    "snaps = map (\<lambda>i. (replicate 1025 (real i), replicate 1025 (- real i))) [0..<21]"
  have a: "snap_ok init (replicate 1025 1, replicate 1025 2)"
    by (simp add: snap_ok_def init_fields)
  have b: "list_all (snap_ok init) snaps"
    by (simp add: snaps_def list_all_iff snap_ok_def init_fields)
  have n: "length snaps = 21" and one: "snaps ! Suc 0 = (replicate 1025 1, replicate 1025 (- 1))"
    by (simp_all add: snaps_def)
  from history_rotation[OF history_ok_init a b] obtain s' where
    "record_all init snaps = Inr s'" "length (freq_history s') = history_size init"
    "current_pos s' = (current_pos init + length snaps) mod history_size init"
    "history_size init \<le> length snaps \<longrightarrow>
       freq_history s' ! current_pos s'
         = take (fft_size init div 2) (fst (snaps ! (length snaps - history_size init)))
     \<and> spec_history s' ! current_pos s'
         = take (fft_size init div 2) (snd (snaps ! (length snaps - history_size init)))"
    by blast
  then have "record_all init snaps = Inr s' \<and> length (freq_history s') = 20
     \<and> current_pos s' = 1 \<and> freq_history s' ! 1 = replicate 1024 1
     \<and> spec_history s' ! 1 = replicate 1024 (- 1)"
    by (simp add: init_fields n one)
  then show ?thesis
    using history_ok_init a b n unfolding snaps_def[symmetric]
    by (auto simp: init_fields)
qed

lemma mean_axis0_rect:
  assumes "h \<noteq> []" and "list_all (\<lambda>r. length r = C) h"
  shows "mean_axis0 h = map (\<lambda>c. sum_list (map (\<lambda>row. row ! c) h) / real (length h)) [0..<C]"
  using assms by (cases h) (simp_all add: mean_axis0_def)



lemma run_result_ok:
  assumes "m \<noteq> []"
  shows "run_result s m =
           Inr \<lparr> spectrum = mean_axis0 (freq_history s),
                 spectrogram = mean_axis0 (spec_history s),
                 rms = sqrt (np_mean (map (\<lambda>x. x ^ 2) m)),
                 peak = Max (set m) \<rparr>"
  using assms by (simp add: run_result_def np_max_def)



section \<open>The worker loop\<close>

lemma wf_init: "wf init"
  by (simp add: wf_def buffer_ok_init history_ok_init init_fields hanning_def)

lemma wf_process_audio:
  assumes "wf s"
  shows "wf (snd (process_audio s c))"
  using assms
  by (auto simp: process_audio_def wf_def buffer_ok_def history_ok_def Let_def)

lemma wf_run_pop_frame:
  assumes "wf s"
  shows "wf (snd (run_pop_frame s))"
  using assms
  by (auto simp: run_pop_frame_def wf_def buffer_ok_def history_ok_def)


lemma run_transform_same:
  assumes "window s = window t" and "fft_size s = fft_size t"
  shows "run_transform s frame = run_transform t frame"
  using assms by (simp add: run_transform_def split: sum.splits)

lemma run_transform_ok:
  assumes "0 < fft_size s" and "length (window s) = fft_size s" and "length frame = fft_size s"
  shows "run_transform s frame =
           Inr (map (\<lambda>k. cmod (rfft_bin (map2 (*) frame (window s)) k) / real (fft_size s))
                  [0..<fft_size s div 2 + 1],
                map (\<lambda>k. 20 * log 10 (cmod (rfft_bin (map2 (*) frame (window s)) k)
                                          / real (fft_size s) + 1 / 10 ^ 12))
                  [0..<fft_size s div 2 + 1])"
  using assms by (simp add: run_transform_def np_multiply_def rfft_def Let_def comp_def)


lemma run_cycle_frame:
  assumes "wf s" and "fft_size s \<le> buffer_pos s"
  shows "\<exists>mag pw s2 r.
           run_transform s (take (fft_size s) (audio_buffer s)) = Inr (mag, pw)
         \<and> run_transform (snd (run_pop_frame s)) (take (fft_size s) (audio_buffer s)) = Inr (mag, pw)
         \<and> run_pop_frame s = (Some (take (fft_size s) (audio_buffer s)), snd (run_pop_frame s))
         \<and> length mag = fft_size s div 2 + 1 \<and> length pw = fft_size s div 2 + 1
         \<and> run_record (snd (run_pop_frame s)) mag pw = Inr s2
         \<and> run_result s2 mag = Inr r
         \<and> run_cycle s = Inr (Some r, s2) \<and> wf s2"
proof -
  define F where "F = fft_size s"
  define frame where "frame = take F (audio_buffer s)"
  define s1 where "s1 = snd (run_pop_frame s)"
  from assms(1) have Fpos: "0 < F" and wl: "length (window s) = F"
    and bl: "length (audio_buffer s) = F * 2"
    by (simp_all add: wf_def F_def)
  have fl: "length frame = F"
    using bl by (simp add: frame_def)
  have pop: "run_pop_frame s = (Some frame, s1)"
    using assms(2) by (simp add: run_pop_frame_def s1_def frame_def F_def)
  have wf1: "wf s1"
    unfolding s1_def using assms(1) by (rule wf_run_pop_frame)
  have same: "window s1 = window s" "fft_size s1 = F"
    using assms(2) by (simp_all add: s1_def run_pop_frame_def F_def)
  obtain mag pw where tr: "run_transform s frame = Inr (mag, pw)"
    and lm: "length mag = F div 2 + 1" and lp: "length pw = F div 2 + 1"
    using run_transform_ok[of s frame] Fpos wl fl by (simp add: F_def)
  have tr1: "run_transform s1 frame = Inr (mag, pw)"
    using run_transform_same[of s1 s frame] same tr by (simp add: F_def)
  from wf1 have h1: "history_ok s1"
    by (simp add: wf_def)
  have lens: "fft_size s1 div 2 \<le> length mag" "fft_size s1 div 2 \<le> length pw"
    by (simp_all add: same lm lp)
  define s2 where "s2 = s1\<lparr> freq_history := (freq_history s1)[current_pos s1 := take (fft_size s1 div 2) mag],
                   spec_history := (spec_history s1)[current_pos s1 := take (fft_size s1 div 2) pw],
                   current_pos := (current_pos s1 + 1) mod history_size s1 \<rparr>"
  have rec: "run_record s1 mag pw = Inr s2"
    unfolding s2_def by (rule run_record_ok[OF h1 lens])
  have h2: "history_ok s2"
    by (rule run_record_history_ok[OF h1 lens rec])
  have wf2: "wf s2"
    using wf1 h2 by (simp add: wf_def buffer_ok_def s2_def)
  have ne: "mag \<noteq> []"
    using lm by auto
  obtain r where res: "run_result s2 mag = Inr r"
    using run_result_ok[OF ne, of s2] by simp
  have "run_cycle s = Inr (Some r, s2)"
    by (simp add: run_cycle_def pop tr1 rec res)
  with tr tr1 pop lm lp rec res wf2 show ?thesis
    unfolding frame_def s1_def F_def by blast
qed



lemma wf_one_frame: "wf (snd (process_audio init (replicate 2048 0)))"
  using wf_init by (rule wf_process_audio)

lemma one_frame_pos: "buffer_pos (snd (process_audio init (replicate 2048 0))) = 2048"
  "fft_size (snd (process_audio init (replicate 2048 0))) = 2048"
  by (simp_all add: process_audio_def Let_def init_fields)

text \<open>
  The loop has no handler: were an iteration to raise, the error would leave \<open>run\<close>
  and the rest of the schedule would not execute.
\<close>

lemma exec_raise_ends:
  assumes "running t" and "run_cycle t = Inl e"
  shows "exec (Cycle # ops) t = Inl e"
  using assms by simp



section \<open>The mutex\<close>

lemma run_cycle_events_frame:
  assumes "wf s" and "fft_size s \<le> buffer_pos s"
  shows "run_cycle_events s
           = [MutexLock, CopyOut, Transform, Record, Emit, MutexUnlock, Msleep 20]"
proof -
  define s1 where "s1 = snd (run_pop_frame s)"
  from run_cycle_frame[OF assms] obtain mag pw s2 r where
    "run_transform s1 (take (fft_size s) (audio_buffer s)) = Inr (mag, pw)"
    "run_pop_frame s = (Some (take (fft_size s) (audio_buffer s)), s1)"
    "run_record s1 mag pw = Inr s2"
    "run_result s2 mag = Inr r"
    unfolding s1_def by blast
  then show ?thesis
    by (simp add: run_cycle_events_def)
qed

lemma run_cycle_events_idle:
  assumes "buffer_pos s < fft_size s"
  shows "run_cycle_events s = [MutexLock, MutexUnlock, Msleep 20]"
  using assms by (simp add: run_cycle_events_def run_pop_frame_def)

text \<open>
  Claim C10, as the code has it. \<open>process_audio\<close> holds the mutex for the copy into the buffer only. A loop iteration of \<open>run\<close> that finds a frame holds it from the copy out of the buffer through the transform, the recording and the emission; only the sleep is outside. An iteration without a frame does nothing under the lock.
\<close>

theorem lock_spans_analysis:
  assumes "wf s"
  shows "under_lock False (process_audio_events s c)
           = (if length c \<le> capacity s - occupancy s then [CopyIn] else [])
       \<and> under_lock False (run_cycle_events s)
           = (if fft_size s \<le> occupancy s then [CopyOut, Transform, Record, Emit] else [])"
proof -
  from assms have "buffer_pos s \<le> length (audio_buffer s)"
    by (simp add: wf_def buffer_ok_def)
  then have a: "under_lock False (process_audio_events s c)
           = (if length c \<le> capacity s - occupancy s then [CopyIn] else [])"
    by (auto simp: process_audio_events_def capacity_def occupancy_def)
  have b: "under_lock False (run_cycle_events s)
           = (if fft_size s \<le> occupancy s then [CopyOut, Transform, Record, Emit] else [])"
  proof (cases "fft_size s \<le> buffer_pos s")
    case True
    then show ?thesis
      by (simp add: run_cycle_events_frame[OF assms True] occupancy_def)
  next
    case False
    then show ?thesis
      by (simp add: run_cycle_events_idle occupancy_def)
  qed
  from a b show ?thesis ..
qed

text \<open>
  Claim C10 as stated has the lock released before the transform. After one push of 2048 samples into the fresh analyzer, the next iteration runs the transform and the emission with the mutex held.
\<close>

theorem lock_released_before_fft_counterexample:
  "Transform \<in> set (under_lock False
      (run_cycle_events (snd (process_audio init (replicate 2048 0)))))
   \<and> Emit \<in> set (under_lock False
      (run_cycle_events (snd (process_audio init (replicate 2048 0)))))"
  by (simp add: run_cycle_events_frame[OF wf_one_frame] one_frame_pos)

text \<open>
  The analyzer holding one frame: a further push of 2048 samples is copied in under the lock, one of 2049 is not copied, and the iteration does all four steps under the lock; the fresh analyzer's iteration does none.
\<close>

theorem lock_spans_analysis_witness:
  "wf (snd (process_audio init (replicate 2048 0)))
   \<and> under_lock False (process_audio_events (snd (process_audio init (replicate 2048 0)))
        (replicate 2048 0)) = [CopyIn]
   \<and> under_lock False (process_audio_events (snd (process_audio init (replicate 2048 0)))
        (replicate 2049 0)) = []
   \<and> under_lock False (run_cycle_events (snd (process_audio init (replicate 2048 0))))
        = [CopyOut, Transform, Record, Emit]
   \<and> wf init \<and> under_lock False (run_cycle_events init) = []"
proof -
  have cap: "capacity (snd (process_audio init (replicate 2048 0))) = 4096"
    "occupancy (snd (process_audio init (replicate 2048 0))) = 2048"
    "occupancy init = 0" "fft_size init = 2048"
    by (simp_all add: capacity_def occupancy_def process_audio_def Let_def init_fields)
  show ?thesis
    using lock_spans_analysis[OF wf_one_frame, of "replicate 2048 0"]
      lock_spans_analysis[OF wf_one_frame, of "replicate 2049 0"]
      lock_spans_analysis[OF wf_init, of "[]"] wf_one_frame wf_init
    by (simp add: cap one_frame_pos)
qed

section \<open>The spectral transform\<close>

lemma floor_db: "20 * log 10 (1 / 10 ^ 12) = (- 240 :: real)"
proof -
  have "log 10 (1000000000000::real) = 12"
    using log_pow_cancel[of "10::real" 12] by simp
  then show ?thesis
    by (simp add: log_divide)
qed

lemma power_db_lower:
  assumes "0 \<le> (m::real)"
  shows "20 * log 10 (1 / 10 ^ 12) \<le> 20 * log 10 (m + 1 / 10 ^ 12)"
proof -
  have "log 10 (1 / 10 ^ 12) \<le> log 10 (m + 1 / 10 ^ 12)"
    using assms by (subst log_le_cancel_iff) simp_all
  then show ?thesis by simp
qed

lemma rfft_bin_zero: "rfft_bin (replicate n 0) k = 0"
  by (simp add: rfft_bin_def)

lemma map2_zero_left:
  assumes "length w = n"
  shows "map2 (*) (replicate n (0::real)) w = replicate n 0"
  using assms by (intro nth_equalityI) simp_all

lemma run_transform_silent:
  assumes "0 < fft_size s" and "length (window s) = fft_size s"
  shows "run_transform s (replicate (fft_size s) 0) =
           Inr (replicate (fft_size s div 2 + 1) 0,
                replicate (fft_size s div 2 + 1) (20 * log 10 (1 / 10 ^ 12)))"
proof -
  have z: "map2 (*) (replicate (fft_size s) 0) (window s) = replicate (fft_size s) 0"
    by (rule map2_zero_left[OF assms(2)])
  show ?thesis
    using assms
    by (simp add: run_transform_ok z rfft_bin_zero map_replicate_const del: replicate_Suc)
qed

lemma exec_append:
  "exec (xs @ ys) s =
     (case exec xs s of
        Inl e \<Rightarrow> Inl e
      | Inr (rs, s1) \<Rightarrow>
          (case exec ys s1 of
             Inl e \<Rightarrow> Inl e
           | Inr (rs2, s2) \<Rightarrow> Inr (rs @ rs2, s2)))"
  by (induction xs s rule: exec.induct) (auto split: sum.splits option.splits prod.splits)

lemma int16_to_float_zero: "int16_to_float 0 = 0"
  by (simp add: int16_to_float_def)

lemma silent_round:
  assumes "wf s" and "running s" and "buffer_pos s = 0"
  shows "\<exists>r s'. exec [Push (replicate (fft_size s) 0), Cycle] s = Inr ([r], s')
           \<and> wf s' \<and> running s' \<and> buffer_pos s' = 0
           \<and> fft_size s' = fft_size s \<and> history_size s' = history_size s
           \<and> window s' = window s
           \<and> freq_history s' = (freq_history s)[current_pos s := replicate (fft_size s div 2) 0]
           \<and> spec_history s' = (spec_history s)[current_pos s :=
                 replicate (fft_size s div 2) (20 * log 10 (1 / 10 ^ 12))]
           \<and> current_pos s' = (current_pos s + 1) mod history_size s
           \<and> spectrum r = mean_axis0 (freq_history s')
           \<and> spectrogram r = mean_axis0 (spec_history s')"
proof -
  define F where "F = fft_size s"
  define s0 where "s0 = snd (process_audio s (replicate F 0))"
  from assms(1) have Fpos: "0 < F" and wl: "length (window s) = F"
    and bl: "length (audio_buffer s) = F * 2"
    by (simp_all add: wf_def F_def)
  have wf0: "wf s0"
    unfolding s0_def using assms(1) by (rule wf_process_audio)
  have s0_eq: "s0 = s\<lparr> audio_buffer := replicate F 0 @ drop F (audio_buffer s), buffer_pos := F \<rparr>"
    using assms(3) bl by (simp add: s0_def process_audio_def Let_def int16_to_float_zero)
  have f0: "fft_size s0 = F" "buffer_pos s0 = F" "window s0 = window s" "running s0"
    "take F (audio_buffer s0) = replicate F 0"
    using assms(2) by (simp_all add: s0_eq F_def)
  have le: "fft_size s0 \<le> buffer_pos s0"
    by (simp add: f0)
  define s1 where "s1 = snd (run_pop_frame s0)"
  have s1_f: "fft_size s1 = F" "history_size s1 = history_size s" "window s1 = window s"
    "freq_history s1 = freq_history s" "spec_history s1 = spec_history s"
    "current_pos s1 = current_pos s" "buffer_pos s1 = 0" "running s1"
    using assms(2) by (simp_all add: s1_def run_pop_frame_def s0_eq F_def)
  have wf1: "wf s1"
    unfolding s1_def using wf0 by (rule wf_run_pop_frame)
  then have h1: "history_ok s1"
    by (simp add: wf_def)
  from run_cycle_frame[OF wf0 le] obtain mag pw s2 r where
    tr: "run_transform s0 (take F (audio_buffer s0)) = Inr (mag, pw)"
    and rec: "run_record s1 mag pw = Inr s2"
    and res: "run_result s2 mag = Inr r"
    and cyc: "run_cycle s0 = Inr (Some r, s2)" and wf2: "wf s2"
    unfolding s1_def f0 by blast
  have sil: "run_transform s0 (replicate F 0) =
           Inr (replicate (F div 2 + 1) 0, replicate (F div 2 + 1) (20 * log 10 (1 / 10 ^ 12)))"
    using run_transform_silent[of s0] Fpos wl by (simp add: f0)
  from tr sil have mag: "mag = replicate (F div 2 + 1) 0"
    and pw: "pw = replicate (F div 2 + 1) (20 * log 10 (1 / 10 ^ 12))"
    by (simp_all add: f0)
  have lens: "fft_size s1 div 2 \<le> length mag" "fft_size s1 div 2 \<le> length pw"
    by (simp_all add: mag pw s1_f)
  have s2_eq: "s2 = s1\<lparr> freq_history := (freq_history s1)[current_pos s1 := take (fft_size s1 div 2) mag],
                   spec_history := (spec_history s1)[current_pos s1 := take (fft_size s1 div 2) pw],
                   current_pos := (current_pos s1 + 1) mod history_size s1 \<rparr>"
    using rec run_record_ok[OF h1 lens] by simp
  have ne: "mag \<noteq> []"
    by (simp add: mag)
  have r_eq: "spectrum r = mean_axis0 (freq_history s2)" "spectrogram r = mean_axis0 (spec_history s2)"
    using res run_result_ok[OF ne, of s2] by auto
  have ex: "exec [Push (replicate (fft_size s) 0), Cycle] s = Inr ([r], s2)"
    using cyc f0(4) by (simp add: s0_def F_def)
  have tk: "take (F div 2) (replicate (F div 2 + 1) x) = replicate (F div 2) x" for x :: real
    by (simp only: take_replicate) simp
  have fields: "running s2" "buffer_pos s2 = 0" "fft_size s2 = fft_size s"
    "history_size s2 = history_size s" "window s2 = window s"
    "freq_history s2 = (freq_history s)[current_pos s := replicate (fft_size s div 2) 0]"
    "spec_history s2 = (spec_history s)[current_pos s :=
                 replicate (fft_size s div 2) (20 * log 10 (1 / 10 ^ 12))]"
    "current_pos s2 = (current_pos s + 1) mod history_size s"
    unfolding s2_eq s1_f mag pw tk by (simp_all add: s1_f F_def)
  from ex wf2 fields r_eq show ?thesis
    by blast
qed

lemma residue_cover:
  fixes a i H :: nat
  assumes "i < H"
  shows "\<exists>t<H. (a + t) mod H = i"
proof -
  define t where "t = (i + H - a mod H) mod H"
  from assms have Hpos: "0 < H" by simp
  then have le: "a mod H \<le> i + H"
    using mod_less_divisor[OF Hpos, of a] by simp
  have "(a + t) mod H = (a mod H + (i + H - a mod H)) mod H"
    unfolding t_def by (simp add: mod_simps)
  also have "a mod H + (i + H - a mod H) = i + H"
    using le by simp
  finally have "(a + t) mod H = i"
    using assms by simp
  moreover have "t < H"
    using Hpos by (simp add: t_def)
  ultimately show ?thesis by blast
qed

lemma mean_axis0_const:
  assumes "0 < H"
  shows "mean_axis0 (replicate H (replicate C v)) = replicate C v"
proof -
  have ne: "replicate H (replicate C v) \<noteq> []"
    using assms by simp
  have rect: "list_all (\<lambda>r. length r = C) (replicate H (replicate C v))"
    by (simp add: list_all_iff)
  have "map (\<lambda>c. sum_list (map (\<lambda>row. row ! c) (replicate H (replicate C v)))
                    / real (length (replicate H (replicate C v)))) [0..<C]
        = map (\<lambda>c. v) [0..<C]"
    using assms by (intro map_cong[OF refl]) (simp add: sum_list_replicate)
  then show ?thesis
    unfolding mean_axis0_rect[OF ne rect] by (simp add: map_replicate_const)
qed

lemma silent_rounds:
  assumes "wf s" and "running s" and "buffer_pos s = 0"
  shows "\<exists>rs s'. exec (concat (replicate n [Push (replicate (fft_size s) 0), Cycle])) s = Inr (rs, s')
           \<and> length rs = n
           \<and> wf s' \<and> running s' \<and> buffer_pos s' = 0
           \<and> fft_size s' = fft_size s \<and> history_size s' = history_size s
           \<and> window s' = window s
           \<and> current_pos s' = (current_pos s + n) mod history_size s
           \<and> (\<forall>j<n. freq_history s' ! ((current_pos s + j) mod history_size s)
                       = replicate (fft_size s div 2) 0
                    \<and> spec_history s' ! ((current_pos s + j) mod history_size s)
                       = replicate (fft_size s div 2) (20 * log 10 (1 / 10 ^ 12)))
           \<and> (0 < n \<longrightarrow> spectrum (last rs) = mean_axis0 (freq_history s')
                        \<and> spectrogram (last rs) = mean_axis0 (spec_history s'))"
proof (induction n)
  case 0
  from assms(1) have "current_pos s < history_size s"
    by (simp add: wf_def history_ok_def)
  with assms show ?case by simp
next
  case (Suc n)
  define H where "H = history_size s"
  define p0 where "p0 = current_pos s"
  define Z where "Z = replicate (fft_size s div 2) (0::real)"
  define L where "L = replicate (fft_size s div 2) (20 * log 10 (1 / 10 ^ 12) :: real)"
  define round where "round = [Push (replicate (fft_size s) 0), Cycle]"
  from Suc.IH obtain rs s1 where
    e1: "exec (concat (replicate n round)) s = Inr (rs, s1)" and l1: "length rs = n"
    and w1: "wf s1" "running s1" "buffer_pos s1 = 0"
    and k1: "fft_size s1 = fft_size s" "history_size s1 = H" "window s1 = window s"
    and c1: "current_pos s1 = (p0 + n) mod H"
    and rows1: "\<And>j. j < n \<Longrightarrow> freq_history s1 ! ((p0 + j) mod H) = Z
                          \<and> spec_history s1 ! ((p0 + j) mod H) = L"
    unfolding H_def p0_def Z_def L_def round_def by blast
  from silent_round[OF w1] obtain r s2 where
    e2: "exec round s1 = Inr ([r], s2)"
    and w2: "wf s2" "running s2" "buffer_pos s2 = 0"
    and k2: "fft_size s2 = fft_size s" "history_size s2 = H" "window s2 = window s"
    and f2: "freq_history s2 = (freq_history s1)[current_pos s1 := Z]"
    and g2: "spec_history s2 = (spec_history s1)[current_pos s1 := L]"
    and c2: "current_pos s2 = (current_pos s1 + 1) mod H"
    and r2: "spectrum r = mean_axis0 (freq_history s2)" "spectrogram r = mean_axis0 (spec_history s2)"
    unfolding round_def Z_def L_def k1 by blast
  have "replicate (Suc n) round = replicate n round @ [round]"
    by (simp add: replicate_append_same)
  then have cat: "concat (replicate (Suc n) round) = concat (replicate n round) @ round"
    by (simp only: concat_append concat.simps append_Nil2)
  have e: "exec (concat (replicate (Suc n) round)) s = Inr (rs @ [r], s2)"
    unfolding cat by (simp add: exec_append e1 e2)
  from w1(1) k1 have len: "length (freq_history s1) = H" "length (spec_history s1) = H"
    and Hpos: "0 < H"
    by (simp_all add: wf_def history_ok_def)
  have cin: "current_pos s1 < H"
    using Hpos by (simp add: c1)
  have c: "current_pos s2 = (p0 + Suc n) mod H"
    by (simp add: c2 c1 mod_Suc_eq)
  have rows2: "freq_history s2 ! ((p0 + j) mod H) = Z \<and> spec_history s2 ! ((p0 + j) mod H) = L"
    if "j < Suc n" for j
  proof (cases "j = n")
    case True
    then show ?thesis
      using cin len by (simp add: f2 g2 c1)
  next
    case False
    with that have "j < n" by simp
    from rows1[OF this] cin len Hpos show ?thesis
      by (simp add: f2 g2 nth_list_update)
  qed
  from e l1 w2 k2 c rows2 r2 show ?case
    unfolding H_def p0_def Z_def L_def round_def
    by (intro exI[of _ "rs @ [r]"] exI[of _ s2]) simp
qed

lemma silent_history:
  assumes "wf s" and "running s" and "buffer_pos s = 0" and "history_size s \<le> n"
  shows "\<exists>rs s'. exec (concat (replicate n [Push (replicate (fft_size s) 0), Cycle])) s = Inr (rs, s')
           \<and> length rs = n \<and> window s' = window s
           \<and> spectrum (last rs) = replicate (fft_size s div 2) 0
           \<and> spectrogram (last rs) = replicate (fft_size s div 2) (20 * log 10 (1 / 10 ^ 12))"
proof -
  define H where "H = history_size s"
  define p0 where "p0 = current_pos s"
  define Z where "Z = replicate (fft_size s div 2) (0::real)"
  define L where "L = replicate (fft_size s div 2) (20 * log 10 (1 / 10 ^ 12) :: real)"
  from silent_rounds[OF assms(1-3), of n] obtain rs s' where
    e: "exec (concat (replicate n [Push (replicate (fft_size s) 0), Cycle])) s = Inr (rs, s')"
    and l: "length rs = n" and w: "wf s'" and k: "history_size s' = H" "window s' = window s"
    and rows: "\<And>j. j < n \<Longrightarrow> freq_history s' ! ((p0 + j) mod H) = Z
                          \<and> spec_history s' ! ((p0 + j) mod H) = L"
    and lst: "0 < n \<longrightarrow> spectrum (last rs) = mean_axis0 (freq_history s')
                        \<and> spectrogram (last rs) = mean_axis0 (spec_history s')"
    unfolding H_def p0_def Z_def L_def by blast
  from w k have len: "length (freq_history s') = H" "length (spec_history s') = H"
    and Hpos: "0 < H"
    by (simp_all add: wf_def history_ok_def)
  have all: "freq_history s' ! i = Z \<and> spec_history s' ! i = L" if "i < H" for i
  proof -
    from residue_cover[OF that, of p0] obtain t where "t < H" and "(p0 + t) mod H = i"
      by blast
    with rows[of t] assms(4) show ?thesis
      by (simp add: H_def)
  qed
  have "freq_history s' = replicate H Z" "spec_history s' = replicate H L"
    using len all by (auto intro!: nth_equalityI)
  then have "mean_axis0 (freq_history s') = Z" "mean_axis0 (spec_history s') = L"
    using Hpos by (simp_all add: Z_def L_def mean_axis0_const)
  moreover have "0 < n"
    using assms(4) Hpos by (simp add: H_def)
  ultimately show ?thesis
    using e l k(2) lst unfolding Z_def L_def by auto
qed

text \<open>
  Claim C3, over exact real arithmetic. For a frame of \<open>fft_size\<close> samples the transform yields \<open>fft_size // 2 + 1\<close> bins: the magnitude is the modulus of the real-input Fourier bin of the frame multiplied elementwise by the stored window, divided by \<open>fft_size\<close>; the power is \<open>20 * log10(magnitude + 1e-12)\<close>. The argument of the logarithm is at least \<open>1e-12\<close>, so every power value is at least the floor \<open>20 * log10(1e-12) = -240\<close>. The window the constructor stores is \<open>np.hanning(fft_size)\<close>. For the all-zero frame every magnitude is zero and every power value is the floor. After \<open>n\<close> rounds of pushing one silent frame and running one loop iteration, \<open>n\<close> at least \<open>history_size\<close>, from a well-formed running state with an empty buffer, the last emitted spectrogram is the floor in every bin and the spectrum zero.
\<close>

theorem silence_floor:
  assumes "wf s" and "length frame = fft_size s"
    and "running s" and "buffer_pos s = 0" and "history_size s \<le> n"
  shows "(\<exists>mag pw. run_transform s frame = Inr (mag, pw)
            \<and> length mag = fft_size s div 2 + 1 \<and> length pw = fft_size s div 2 + 1
            \<and> (\<forall>k<fft_size s div 2 + 1.
                  mag ! k = cmod (rfft_bin (map2 (*) frame (window s)) k) / real (fft_size s)
                \<and> pw ! k = 20 * log 10 (mag ! k + 1 / 10 ^ 12)
                \<and> 20 * log 10 (1 / 10 ^ 12) \<le> pw ! k))
       \<and> window init = hanning (fft_size init)
       \<and> run_transform s (replicate (fft_size s) 0)
           = Inr (replicate (fft_size s div 2 + 1) 0,
                  replicate (fft_size s div 2 + 1) (20 * log 10 (1 / 10 ^ 12)))
       \<and> 20 * log 10 (1 / 10 ^ 12) = (- 240 :: real)
       \<and> (\<exists>rs s'. exec (concat (replicate n [Push (replicate (fft_size s) 0), Cycle])) s
                      = Inr (rs, s')
            \<and> length rs = n \<and> window s' = window s
            \<and> spectrum (last rs) = replicate (fft_size s div 2) 0
            \<and> spectrogram (last rs) = replicate (fft_size s div 2) (20 * log 10 (1 / 10 ^ 12)))"
proof -
  from assms(1) have Fpos: "0 < fft_size s" and wl: "length (window s) = fft_size s"
    by (simp_all add: wf_def)
  define mag where "mag = map (\<lambda>k. cmod (rfft_bin (map2 (*) frame (window s)) k) / real (fft_size s))
                  [0..<fft_size s div 2 + 1]"
  define pw where "pw = map (\<lambda>k. 20 * log 10 (cmod (rfft_bin (map2 (*) frame (window s)) k)
                                          / real (fft_size s) + 1 / 10 ^ 12))
                  [0..<fft_size s div 2 + 1]"
  have tr: "run_transform s frame = Inr (mag, pw)"
    unfolding mag_def pw_def by (rule run_transform_ok[OF Fpos wl assms(2)])
  have bins: "mag ! k = cmod (rfft_bin (map2 (*) frame (window s)) k) / real (fft_size s)
                \<and> pw ! k = 20 * log 10 (mag ! k + 1 / 10 ^ 12)
                \<and> 20 * log 10 (1 / 10 ^ 12) \<le> pw ! k" if "k < fft_size s div 2 + 1" for k
  proof -
    have m: "mag ! k = cmod (rfft_bin (map2 (*) frame (window s)) k) / real (fft_size s)"
      using that unfolding mag_def by (simp del: upt_Suc)
    have p: "pw ! k = 20 * log 10 (mag ! k + 1 / 10 ^ 12)"
      unfolding m using that unfolding pw_def by (simp del: upt_Suc)
    have "0 \<le> mag ! k"
      by (simp add: m)
    from power_db_lower[OF this] m p show ?thesis
      by simp
  qed
  have lens: "length mag = fft_size s div 2 + 1" "length pw = fft_size s div 2 + 1"
    by (simp_all add: mag_def pw_def del: upt_Suc)
  have first: "\<exists>mag pw. run_transform s frame = Inr (mag, pw)
            \<and> length mag = fft_size s div 2 + 1 \<and> length pw = fft_size s div 2 + 1
            \<and> (\<forall>k<fft_size s div 2 + 1.
                  mag ! k = cmod (rfft_bin (map2 (*) frame (window s)) k) / real (fft_size s)
                \<and> pw ! k = 20 * log 10 (mag ! k + 1 / 10 ^ 12)
                \<and> 20 * log 10 (1 / 10 ^ 12) \<le> pw ! k)"
    using tr bins lens by blast
  have win: "window init = hanning (fft_size init)"
    by (simp add: init_fields)
  from first win run_transform_silent[OF Fpos wl] floor_db silent_history[OF assms(1,3,4,5)]
  show ?thesis
    by blast
qed

text \<open>
  The fresh analyzer: a constant frame gives power values not below -240, and twenty rounds of silence leave the emitted spectrogram at -240 in all 1024 bins.
\<close>

theorem silence_floor_witness:
  "wf init \<and> length (replicate 2048 (1::real)) = fft_size init
   \<and> running init \<and> buffer_pos init = 0 \<and> history_size init \<le> 20
   \<and> (\<exists>mag pw. run_transform init (replicate 2048 1) = Inr (mag, pw)
         \<and> length pw = 1025 \<and> 0 < fft_size init div 2 + 1 \<and> - 240 \<le> pw ! 0)
   \<and> (\<exists>rs s'. exec (concat (replicate 20 [Push (replicate 2048 0), Cycle])) init = Inr (rs, s')
         \<and> length rs = 20 \<and> spectrogram (last rs) = replicate 1024 (- 240))"
proof -
  have h: "length (replicate 2048 (1::real)) = fft_size init" "running init"
    "buffer_pos init = 0" "history_size init \<le> 20"
    by (simp_all add: init_fields)
  note t = silence_floor[OF wf_init h]
  from t obtain mag pw where
    "run_transform init (replicate 2048 1) = Inr (mag, pw)" "length pw = fft_size init div 2 + 1"
    "\<forall>k<fft_size init div 2 + 1. 20 * log 10 (1 / 10 ^ 12) \<le> pw ! k"
    by blast
  moreover from t have fl: "20 * log 10 (1 / 10 ^ 12) = (- 240 :: real)"
    by blast
  ultimately have a: "\<exists>mag pw. run_transform init (replicate 2048 1) = Inr (mag, pw)
         \<and> length pw = 1025 \<and> 0 < fft_size init div 2 + 1 \<and> - 240 \<le> pw ! 0"
    by (auto simp: init_fields)
  from t obtain rs s' where
    "exec (concat (replicate 20 [Push (replicate (fft_size init) 0), Cycle])) init = Inr (rs, s')"
    "length rs = 20"
    "spectrogram (last rs) = replicate (fft_size init div 2) (20 * log 10 (1 / 10 ^ 12))"
    by blast
  then have b: "\<exists>rs s'. exec (concat (replicate 20 [Push (replicate 2048 0), Cycle])) init = Inr (rs, s')
         \<and> length rs = 20 \<and> spectrogram (last rs) = replicate 1024 (- 240)"
    unfolding fl by (auto simp: init_fields)
  from a b h wf_init show ?thesis
    by blast
qed

section \<open>RMS and peak\<close>



















end
